theory Spec2Isabelle
  imports Main
begin

section \<open>JavaScript strings\<close>

text \<open>
  A JavaScript string is modelled as a \<^typ>\<open>string\<close>: one \<^typ>\<open>char\<close> per code unit,
  for the code units 0 to 255. In that range the white space of \<open>trim\<close>, \<open>trimEnd\<close> and of
  the regular expression class \<open>\s\<close> is tab, line feed, vertical tab, form feed, carriage
  return, space and the no-break space; the word characters of \<open>\b\<close> are the ASCII
  letters, the digits and the underscore.
\<close>

definition is_space :: "char \<Rightarrow> bool" where
  "is_space c = (of_char c \<in> {9, 10, 11, 12, 13, 32, 160 :: nat})"

definition is_digit :: "char \<Rightarrow> bool" where
  "is_digit c = (48 \<le> (of_char c :: nat) \<and> (of_char c :: nat) \<le> 57)"

definition is_word :: "char \<Rightarrow> bool" where
  "is_word c =
     (let n = (of_char c :: nat)
      in (48 \<le> n \<and> n \<le> 57) \<or> (65 \<le> n \<and> n \<le> 90) \<or> (97 \<le> n \<and> n \<le> 122) \<or> n = 95)"

definition digit_val :: "char \<Rightarrow> int" where
  "digit_val c = of_char c - 48"

definition trimStart :: "string \<Rightarrow> string" where
  "trimStart s = dropWhile is_space s"

definition trimEnd :: "string \<Rightarrow> string" where
  "trimEnd s = rev (dropWhile is_space (rev s))"

definition trim :: "string \<Rightarrow> string" where
  "trim s = trimEnd (trimStart s)"

text \<open>\<open>s.split(c)\<close> for a separator of one character: never the empty array.\<close>

fun split :: "char \<Rightarrow> string \<Rightarrow> string list" where
  "split c [] = [[]]"
| "split c (x # xs) =
     (if x = c then [] # split c xs
      else (case split c xs of [] \<Rightarrow> [[x]] | y # ys \<Rightarrow> (x # y) # ys))"

text \<open>\<open>parts.join(sep)\<close> on an array of strings.\<close>

fun join :: "string \<Rightarrow> string list \<Rightarrow> string" where
  "join sep [] = []"
| "join sep [x] = x"
| "join sep (x # y # ys) = x @ sep @ join sep (y # ys)"

definition startsWith :: "string \<Rightarrow> string \<Rightarrow> bool" where
  "startsWith s p = (take (length p) s = p)"

definition endsWith :: "string \<Rightarrow> string \<Rightarrow> bool" where
  "endsWith s p = (drop (length s - length p) s = p)"

text \<open>\<open>s.slice(1, -1)\<close>: without the first and the last code unit.\<close>

definition slice_1_m1 :: "string \<Rightarrow> string" where
  "slice_1_m1 s = butlast (tl s)"

section \<open>Folder tags and objects\<close>

text \<open>
  \<open>interface FolderTag { inherited: boolean; tag: string }\<close>. A \<open>Set\<close> of such objects
  compares them by reference, so an object is its heap address together with its fields
  (the program never writes to a field of a \<open>FolderTag\<close>, and one address holds one
  object): two objects are the same exactly when the pairs are equal.
\<close>

record FolderTag =
  tag :: string
  inherited :: bool

type_synonym ref = nat

type_synonym FolderTagObj = "ref \<times> FolderTag"

text \<open>A value held in the \<open>tags\<close> array of a parsed frontmatter: a string, or a
  \<open>FolderTag\<close> object spread into it. Strings are the same when their texts are.\<close>

datatype jsval = JStr string | JObj FolderTagObj

text \<open>\<open>new Set(xs)\<close>, read back in insertion order: the first occurrence of every
  element stays.\<close>

fun new_Set :: "'a list \<Rightarrow> 'a list" where
  "new_Set [] = []"
| "new_Set (x # xs) = x # new_Set (filter (\<lambda>y. y \<noteq> x) xs)"

text \<open>\<open>String(v)\<close> as \<open>Array.prototype.join\<close> applies it: a plain object prints as
  \<open>[object Object]\<close>.\<close>

fun toString :: "jsval \<Rightarrow> string" where
  "toString (JStr s) = s"
| "toString (JObj obj) = ''[object Object]''"

section \<open>The object built by parseYaml\<close>

datatype yval = YStr string | YArr "jsval list"

text \<open>
  A plain object \<open>{}\<close> with string and array values, as the list of its own properties
  in creation order. Writing \<open>obj["__proto__"]\<close> reaches the setter of
  \<open>Object.prototype\<close> and creates no own property.
\<close>

type_synonym yobj = "(string \<times> yval) list"

fun assign :: "string \<Rightarrow> yval \<Rightarrow> yobj \<Rightarrow> yobj" where
  "assign k v [] = [(k, v)]"
| "assign k v (p # ps) = (if fst p = k then (k, v) # ps else p # assign k v ps)"

definition obj_set :: "string \<Rightarrow> yval \<Rightarrow> yobj \<Rightarrow> yobj" where
  "obj_set k v obj = (if k = ''__proto__'' then obj else assign k v obj)"

definition obj_get :: "string \<Rightarrow> yobj \<Rightarrow> yval option" where
  "obj_get k obj = map_of obj k"

definition obj_delete :: "string \<Rightarrow> yobj \<Rightarrow> yobj" where
  "obj_delete k obj = filter (\<lambda>p. fst p \<noteq> k) obj"

text \<open>
  \<open>Object.entries\<close> lists the array-index keys first (canonical decimal numerals below
  \<open>2^32 - 1\<close>), in ascending numeric order, then the other keys in creation order.
\<close>

definition num_val :: "string \<Rightarrow> int" where
  "num_val s = foldl (\<lambda>n c. 10 * n + digit_val c) 0 s"

definition is_array_index :: "string \<Rightarrow> bool" where
  "is_array_index s =
     (s \<noteq> [] \<and> list_all is_digit s \<and> (if hd s = CHR ''0'' then s = ''0'' else True)
      \<and> num_val s < 4294967295)"

definition entries :: "yobj \<Rightarrow> yobj" where
  "entries obj =
     sort_key (\<lambda>p. num_val (fst p)) (filter (\<lambda>p. is_array_index (fst p)) obj)
     @ filter (\<lambda>p. \<not> is_array_index (fst p)) obj"

section \<open>parseYaml and stringifyYaml\<close>

text \<open>
  The body of the loop of \<open>parseYaml\<close> for one line:
  \<^verbatim>\<open>
  const [key, ...values] = line.split(":").map((s) => s.trim());
  if (key && values.length) {
      const value = values.join(":").trim();
      if (value.startsWith("[") && value.endsWith("]")) {
          result[key] = value.slice(1, -1).split(",").map((s) => s.trim());
      } else {
          result[key] = value;
      }
  }
  \<close>
\<close>

definition parseLine :: "yobj \<Rightarrow> string \<Rightarrow> yobj" where
  "parseLine result line =
     (case map trim (split (CHR '':'') line) of
        [] \<Rightarrow> result
      | key # values \<Rightarrow>
          if key \<noteq> [] \<and> values \<noteq> [] then
            (let v = trim (join '':'' values)
             in if startsWith v ''['' \<and> endsWith v '']''
                then obj_set key (YArr (map (\<lambda>s. JStr (trim s)) (split (CHR '','') (slice_1_m1 v)))) result
                else obj_set key (YStr v) result)
          else result)"

text \<open>No operation in the \<open>try\<close> block can throw on a string, so the \<open>catch\<close> branch
  is never taken and the function has no error result.\<close>

definition parseYaml :: "string \<Rightarrow> yobj" where
  "parseYaml yaml = foldl parseLine [] (split (CHR 0x0A) yaml)"

definition stringifyEntry :: "string \<times> yval \<Rightarrow> string" where
  "stringifyEntry p =
     (case snd p of
        YArr xs \<Rightarrow> fst p @ '': ['' @ join '', '' (map toString xs) @ '']''
      | YStr s \<Rightarrow> fst p @ '': '' @ s)"

definition stringifyYaml :: "yobj \<Rightarrow> string" where
  "stringifyYaml obj = join [CHR 0x0A] (map stringifyEntry (entries obj))"

text \<open>
  What it is for the result of \<open>parseYaml\<close> to be an object: its own properties have
  distinct keys, and each has a non-empty key other than \<open>__proto__\<close> and holds a string
  or an array of strings.
\<close>

definition own_property :: "string \<times> yval \<Rightarrow> bool" where
  "own_property p =
     (fst p \<noteq> [] \<and> fst p \<noteq> ''__proto__''
      \<and> (case snd p of
            YStr s \<Rightarrow> True
          | YArr xs \<Rightarrow> list_all (\<lambda>v. case v of JStr s \<Rightarrow> True | JObj obj \<Rightarrow> False) xs))"

definition plain_object :: "yobj \<Rightarrow> bool" where
  "plain_object obj = (distinct (map fst obj) \<and> list_all own_property obj)"

section \<open>The frontmatter pattern and its replacement\<close>

text \<open>
  \<open>content.match(/^---\n([\s\S]*?)\n---/)\<close>. The pattern has no flag, so \<open>^\<close> is the start
  of the text; the group is lazy, so it ends at the first \<open>\n---\<close> after the opening
  \<open>---\n\<close>. The result is the text of group 1 and the text after the match.
\<close>

fun find_close :: "string \<Rightarrow> (string \<times> string) option" where
  "find_close [] = None"
| "find_close (x # xs) =
     (if startsWith (x # xs) ''\<newline>---'' then Some ([], drop 4 (x # xs))
      else (case find_close xs of None \<Rightarrow> None | Some m \<Rightarrow> Some (x # fst m, snd m)))"

definition frontmatterMatch :: "string \<Rightarrow> (string \<times> string) option" where
  "frontmatterMatch content =
     (if startsWith content ''---\<newline>'' then find_close (drop 4 content) else None)"

text \<open>
  The replacement text of \<open>String.prototype.replace\<close> is a template (GetSubstitution of
  ECMAScript) for a match at position 0 with one capture group and no named group:
  \<open>$$\<close> is a dollar sign, \<open>$&\<close> the match, \<open>$\<close> with a backquote the text before the
  match (empty here), \<open>$'\<close> the text after the match, \<open>$1\<close> and \<open>$01\<close> the group; a
  two-digit index above the number of groups is read as one digit and a literal digit;
  every other \<open>$\<close> stands for itself. Arguments: the match, the group, the text after
  the match, the template.
\<close>

fun getSubstitution :: "string \<Rightarrow> string \<Rightarrow> string \<Rightarrow> string \<Rightarrow> string" where
  "getSubstitution m c a [] = []"
| "getSubstitution m c a [x] = [x]"
| "getSubstitution m c a (x # y # ys) =
     (if x \<noteq> CHR ''$'' then x # getSubstitution m c a (y # ys)
      else if y = CHR ''$'' then CHR ''$'' # getSubstitution m c a ys
      else if y = CHR ''&'' then m @ getSubstitution m c a ys
      else if y = CHR 0x60 then getSubstitution m c a ys
      else if y = CHR 0x27 then a @ getSubstitution m c a ys
      else if is_digit y then
        (case ys of
           [] \<Rightarrow> (if digit_val y = 1 then c else [x, y])
         | z # zs \<Rightarrow>
             if is_digit z \<and> 10 * digit_val y + digit_val z \<le> 1
             then (if digit_val z = 1 then c @ getSubstitution m c a zs
                   else x # y # z # getSubstitution m c a zs)
             else (if digit_val y = 1 then c @ getSubstitution m c a (z # zs)
                   else x # y # getSubstitution m c a (z # zs)))
      else x # getSubstitution m c a (y # ys))"

text \<open>\<open>content.replace(frontmatterRegex, template)\<close>: the first (and only) match is
  replaced, the text after it stays.\<close>

definition replaceFrontmatter :: "string \<Rightarrow> string \<Rightarrow> string" where
  "replaceFrontmatter content template =
     (case frontmatterMatch content of
        None \<Rightarrow> content
      | Some m \<Rightarrow>
          getSubstitution (''---\<newline>'' @ fst m @ ''\<newline>---'') (fst m) (snd m) template @ snd m)"

section \<open>The metadata cache\<close>

text \<open>
  What the program reads of \<open>metadataCache.getFileCache(file)\<close>: whether
  \<open>metadata.frontmatter\<close> is there, and the texts \<open>#name\<close> of \<open>metadata.tags\<close> when that
  array is there. The cache may answer \<open>null\<close>.
\<close>

record CachedMetadata =
  frontmatter :: bool
  cache_tags :: "string list option"

definition hasFrontmatter :: "CachedMetadata option \<Rightarrow> bool" where
  "hasFrontmatter metadata = (case metadata of None \<Rightarrow> False | Some m \<Rightarrow> frontmatter m)"

text \<open>The set \<open>existingTags\<close> of \<open>addTagsToFileContent\<close>: \<open>tag.tag.substring(1)\<close> of
  every entry of \<open>metadata.tags\<close>.\<close>

definition existingTags :: "CachedMetadata option \<Rightarrow> string list" where
  "existingTags metadata =
     (case metadata of
        None \<Rightarrow> []
      | Some m \<Rightarrow> (case cache_tags m of None \<Rightarrow> [] | Some ts \<Rightarrow> map (drop 1) ts))"

section \<open>addTagsToFileContent\<close>

text \<open>\<open>yaml.tags || []\<close>, made an array (\<open>Array.isArray(t) ? t : [t]\<close>): a missing key
  and the empty string are falsy.\<close>

definition tagsOrEmpty :: "yobj \<Rightarrow> jsval list" where
  "tagsOrEmpty yaml =
     (case obj_get ''tags'' yaml of
        None \<Rightarrow> []
      | Some (YArr xs) \<Rightarrow> xs
      | Some (YStr s) \<Rightarrow> (if s = [] then [] else [JStr s]))"

text \<open>
  The result is the text \<open>vault.modify\<close> is called with, or \<open>None\<close> when the function
  returns without a write. A \<open>Set<FolderTag>\<close> is the list of its objects in insertion
  order.
\<close>

definition addTagsToFileContent ::
  "string \<Rightarrow> CachedMetadata option \<Rightarrow> FolderTagObj list \<Rightarrow> string option" where
  "addTagsToFileContent content metadata newTags =
     (if newTags = [] then None
      else
        let tagsToAdd =
              new_Set (filter (\<lambda>t. tag (snd t) \<notin> set (existingTags metadata)) newTags)
        in if tagsToAdd = [] then None
           else if hasFrontmatter metadata then
             (case frontmatterMatch content of
                None \<Rightarrow> None
              | Some m \<Rightarrow>
                  let yaml = parseYaml (fst m);
                      allTags = new_Set (tagsOrEmpty yaml @ map JObj tagsToAdd);
                      newFrontmatter = stringifyYaml (obj_set ''tags'' (YArr allTags) yaml)
                  in Some (replaceFrontmatter content
                             (''---\<newline>'' @ newFrontmatter @ ''---'')))
           else
             Some (trimEnd content @ ''\<newline>\<newline>''
                   @ join '' '' (map (\<lambda>t. CHR ''#'' # tag (snd t)) tagsToAdd)))"

section \<open>removeTagsFromFileContent\<close>

text \<open>
  The pattern \<open>\s*(tagsToRemovePattern)\b\<close> with the flag \<open>g\<close> is built from the tag
  texts as they are. The model covers the tags without a regular-expression syntax
  character, for which the group is an alternation of the literal texts \<open>#tag\<close>; for any
  other tag the pattern means something else, or \<open>new RegExp\<close> throws, and the model
  answers \<open>RegExp_Outside_Model\<close>.
\<close>

datatype error = RegExp_Outside_Model

definition regex_literal :: "char \<Rightarrow> bool" where
  "regex_literal c = (c \<notin> set (CHR 0x5C # ''^$.*+?()[]{}|''))"

text \<open>\<open>\b\<close> between two neighbours (\<open>None\<close>: no character on that side).\<close>

definition word_boundary :: "char option \<Rightarrow> char option \<Rightarrow> bool" where
  "word_boundary a b =
     ((case a of None \<Rightarrow> False | Some c \<Rightarrow> is_word c)
      \<noteq> (case b of None \<Rightarrow> False | Some c \<Rightarrow> is_word c))"

text \<open>The group and \<open>\b\<close> at the head of a text: the alternatives are tried in order,
  and the result is the length of the first one that is there and ends at a word
  boundary.\<close>

fun match_alt :: "string list \<Rightarrow> string \<Rightarrow> nat option" where
  "match_alt [] s = None"
| "match_alt (p # ps) s =
     (if startsWith s p
         \<and> word_boundary (if p = [] then None else Some (last p))
                          (case drop (length p) s of [] \<Rightarrow> None | c # cs \<Rightarrow> Some c)
      then Some (length p) else match_alt ps s)"

text \<open>
  The whole pattern at the head of a text: \<open>\s*\<close> takes the longest run of white space,
  and giving characters back cannot help, since every alternative starts with \<open>#\<close>. The
  result is the length of the match.
\<close>

definition match_here :: "string list \<Rightarrow> string \<Rightarrow> nat option" where
  "match_here ps s =
     (case match_alt ps (dropWhile is_space s) of
        None \<Rightarrow> None
      | Some n \<Rightarrow> Some (length (takeWhile is_space s) + n))"

text \<open>
  \<open>newContent.replace(tagRegex, " ")\<close> with the flag \<open>g\<close>: from left to right, every
  match becomes one space and the search goes on after it. The number is how many
  characters of the current match are still to be dropped.
\<close>

fun replace_scan :: "string list \<Rightarrow> nat \<Rightarrow> string \<Rightarrow> string" where
  "replace_scan ps k [] = []"
| "replace_scan ps (Suc k) (c # cs) = replace_scan ps k cs"
| "replace_scan ps 0 (c # cs) =
     (case match_here ps (c # cs) of
        None \<Rightarrow> c # replace_scan ps 0 cs
      | Some n \<Rightarrow> CHR '' '' # replace_scan ps (n - 1) cs)"

definition removeInlineTags :: "FolderTagObj list \<Rightarrow> string \<Rightarrow> error + string" where
  "removeInlineTags tagsForRemoval s =
     (let tagsToRemovePattern = join ''|'' (map (\<lambda>t. CHR ''#'' # tag (snd t)) tagsForRemoval)
      in if tagsToRemovePattern = [] then Inr s
         else if list_all (\<lambda>t. list_all regex_literal (tag (snd t))) tagsForRemoval
         then Inr (replace_scan (map (\<lambda>t. CHR ''#'' # tag (snd t)) tagsForRemoval) 0 s)
         else Inl RegExp_Outside_Model)"

text \<open>\<open>if (yaml.tags)\<close>, then the array \<open>Array.isArray(yaml.tags) ? yaml.tags : [yaml.tags]\<close>.\<close>

definition truthyTags :: "yobj \<Rightarrow> jsval list option" where
  "truthyTags yaml =
     (case obj_get ''tags'' yaml of
        None \<Rightarrow> None
      | Some (YArr xs) \<Rightarrow> Some xs
      | Some (YStr s) \<Rightarrow> (if s = [] then None else Some [JStr s]))"

text \<open>The frontmatter part: \<open>t.tag == tag\<close> compares a tag text with an element of the
  array, an object taking part as its string.\<close>

definition removeFromFrontmatter :: "string \<Rightarrow> FolderTagObj list \<Rightarrow> string" where
  "removeFromFrontmatter content tagsForRemoval =
     (case frontmatterMatch content of
        None \<Rightarrow> content
      | Some m \<Rightarrow>
          let yaml = parseYaml (fst m)
          in (case truthyTags yaml of
                None \<Rightarrow> content
              | Some existing \<Rightarrow>
                  let kept = filter (\<lambda>v. \<not> list_ex (\<lambda>t. tag (snd t) = toString v) tagsForRemoval)
                               existing;
                      yaml1 = obj_set ''tags'' (YArr kept) yaml;
                      yaml2 = (if kept = [] then obj_delete ''tags'' yaml1 else yaml1)
                  in replaceFrontmatter content
                       (''---\<newline>'' @ stringifyYaml yaml2 @ ''---'')))"

text \<open>The result is the text \<open>vault.modify\<close> is called with, \<open>None\<close> when nothing is
  written.\<close>

definition removeTagsFromFileContent ::
  "string \<Rightarrow> CachedMetadata option \<Rightarrow> FolderTagObj list \<Rightarrow> error + string option" where
  "removeTagsFromFileContent content metadata tagsForRemoval =
     (if tagsForRemoval = [] then Inr None
      else
        let newContent =
              (if hasFrontmatter metadata then removeFromFrontmatter content tagsForRemoval
               else content)
        in (case removeInlineTags tagsForRemoval newContent of
              Inl e \<Rightarrow> Inl e
            | Inr newContent2 \<Rightarrow> Inr (if newContent2 \<noteq> content then Some newContent2 else None)))"

section \<open>The settings and the tag resolver\<close>

text \<open>\<open>interface FolderTags { path: string; tags: FolderTag[] }\<close>; the settings are
  the array \<open>settings.folderTags\<close>.\<close>

record FolderTags =
  path :: string
  tags :: "FolderTagObj list"

type_synonym FolderTagsSettings = "FolderTags list"

text \<open>\<open>this.settings.folderTags.find((ft) => ft.path === p)\<close>\<close>

definition findFolderTags :: "FolderTagsSettings \<Rightarrow> string \<Rightarrow> FolderTags option" where
  "findFolderTags settings p = find (\<lambda>ft. path ft = p) settings"

text \<open>\<open>ts.map((t) => ({ tag: t.tag, inherited: true }))\<close>: one new object for every
  element, at the heap addresses from \<open>n\<close> on.\<close>

fun mapInherited :: "ref \<Rightarrow> FolderTagObj list \<Rightarrow> FolderTagObj list" where
  "mapInherited n [] = []"
| "mapInherited n (t # ts) = (n, \<lparr>tag = tag (snd t), inherited = True\<rparr>) # mapInherited (Suc n) ts"

text \<open>\<open>if (currentPath) { currentPath += "/"; } currentPath += part;\<close>\<close>

definition nextPath :: "string \<Rightarrow> string \<Rightarrow> string" where
  "nextPath currentPath part = (if currentPath \<noteq> [] then currentPath @ ''/'' else currentPath) @ part"

text \<open>
  The loop of \<open>getInheritedTags\<close> over the path parts that are left, with the variables
  \<open>currentPath\<close> and \<open>inheritedTags\<close> and the next free heap address.
\<close>

fun inheritedLoop ::
  "FolderTagsSettings \<Rightarrow> string list \<Rightarrow> string \<Rightarrow> FolderTagObj list \<Rightarrow> ref \<Rightarrow> FolderTagObj list" where
  "inheritedLoop settings [] currentPath inheritedTags n = inheritedTags"
| "inheritedLoop settings (part # parts) currentPath inheritedTags n =
     (let currentPath1 = nextPath currentPath part
      in case findFolderTags settings currentPath1 of
           None \<Rightarrow> inheritedLoop settings parts currentPath1 inheritedTags n
         | Some folderTag \<Rightarrow>
             inheritedLoop settings parts currentPath1
               (mapInherited n inheritedTags
                @ mapInherited (n + length inheritedTags) (tags folderTag))
               (n + length inheritedTags + length (tags folderTag)))"

text \<open>\<open>path.split("/")\<close>, then \<open>pathParts.pop()\<close>, then the loop. \<open>fresh\<close> is a heap
  address from which on nothing is allocated yet.\<close>

definition getInheritedTags :: "FolderTagsSettings \<Rightarrow> ref \<Rightarrow> string \<Rightarrow> FolderTagObj list" where
  "getInheritedTags settings fresh p =
     inheritedLoop settings (butlast (split (CHR ''/'') p)) [] [] fresh"

definition getFolderTags :: "FolderTagsSettings \<Rightarrow> ref \<Rightarrow> string \<Rightarrow> FolderTagObj list" where
  "getFolderTags settings fresh folderPath =
     (let directTags = (case findFolderTags settings folderPath of
                          None \<Rightarrow> [] | Some folderTag \<Rightarrow> tags folderTag);
          parentTags = getInheritedTags settings fresh folderPath
      in new_Set (directTags @ parentTags))"

text \<open>\<open>saveFolderTags\<close>: the entry found by \<open>findIndex\<close> gets the new array, or a new
  entry is pushed.\<close>

fun saveFolderTags :: "FolderTagsSettings \<Rightarrow> string \<Rightarrow> FolderTagObj list \<Rightarrow> FolderTagsSettings" where
  "saveFolderTags [] folderPath ts = [\<lparr>path = folderPath, tags = ts\<rparr>]"
| "saveFolderTags (ft # fts) folderPath ts =
     (if path ft = folderPath then ft\<lparr>tags := ts\<rparr> # fts
      else ft # saveFolderTags fts folderPath ts)"

section \<open>addTagsToFolder\<close>

text \<open>
  The vault is the list of its files, each a path and a text. The metadata cache is
  outside the program: \<open>cache i p\<close> is its answer to the \<open>i\<close>-th call of
  \<open>getFileCache\<close>, made for the file at path \<open>p\<close>. A call of one of the two content
  functions is recorded with the file and the tag set it is given.
\<close>

type_synonym vault = "(string \<times> string) list"

type_synonym cache = "nat \<Rightarrow> string \<Rightarrow> CachedMetadata option"

datatype call = RemoveCall string "FolderTagObj list" | AddCall string "FolderTagObj list"

record run =
  files :: vault
  cache_calls :: nat
  trace :: "call list"

definition read :: "vault \<Rightarrow> string \<Rightarrow> string" where
  "read v p = (case map_of v p of None \<Rightarrow> [] | Some c \<Rightarrow> c)"

definition modify :: "vault \<Rightarrow> string \<Rightarrow> string \<Rightarrow> vault" where
  "modify v p c = map (\<lambda>f. if fst f = p then (p, c) else f) v"

text \<open>\<open>await this.removeTagsFromFileContent(file, removedTags)\<close> on the vault.\<close>

definition runRemove :: "cache \<Rightarrow> string \<Rightarrow> FolderTagObj list \<Rightarrow> run \<Rightarrow> error + run" where
  "runRemove cache p removedTags r =
     (let r1 = r\<lparr>trace := trace r @ [RemoveCall p removedTags]\<rparr>
      in if removedTags = [] then Inr r1
         else
           (case removeTagsFromFileContent (read (files r) p) (cache (cache_calls r) p) removedTags of
              Inl e \<Rightarrow> Inl e
            | Inr w \<Rightarrow>
                Inr (r1\<lparr>cache_calls := Suc (cache_calls r),
                        files := (case w of None \<Rightarrow> files r | Some c \<Rightarrow> modify (files r) p c)\<rparr>)))"

text \<open>\<open>await this.addTagsToFileContent(file, addedTags)\<close> on the vault.\<close>

definition runAdd :: "cache \<Rightarrow> string \<Rightarrow> FolderTagObj list \<Rightarrow> run \<Rightarrow> run" where
  "runAdd cache p addedTags r =
     (let r1 = r\<lparr>trace := trace r @ [AddCall p addedTags]\<rparr>
      in if addedTags = [] then r1
         else
           r1\<lparr>cache_calls := Suc (cache_calls r),
              files := (case addTagsToFileContent (read (files r) p) (cache (cache_calls r) p) addedTags of
                          None \<Rightarrow> files r | Some c \<Rightarrow> modify (files r) p c)\<rparr>)"

text \<open>
  The loop \<open>for (const file of files)\<close> of the callback: removals, then additions, for
  every file of the list. An exception ends the loop.
\<close>

fun fileLoop ::
  "cache \<Rightarrow> FolderTagObj list \<Rightarrow> FolderTagObj list \<Rightarrow> string list \<Rightarrow> run \<Rightarrow> error + run" where
  "fileLoop cache removedTags addedTags [] r = Inr r"
| "fileLoop cache removedTags addedTags (p # ps) r =
     (case (if removedTags \<noteq> [] then runRemove cache p removedTags r else Inr r) of
        Inl e \<Rightarrow> Inl e
      | Inr r1 \<Rightarrow>
          fileLoop cache removedTags addedTags ps
            (if addedTags \<noteq> [] then runAdd cache p addedTags r1 else r1))"

text \<open>The two sets of the callback, from the direct tags read when the modal was
  opened and the submitted tags.\<close>

definition removedTagsOf :: "FolderTagObj list \<Rightarrow> FolderTagObj list \<Rightarrow> FolderTagObj list" where
  "removedTagsOf currentTags newTags =
     new_Set
       (filter (\<lambda>t. \<not> list_ex (\<lambda>u. tag (snd u) = tag (snd t) \<and> inherited (snd u) = inherited (snd t))
                            newTags)
          currentTags)"

definition addedTagsOf :: "FolderTagObj list \<Rightarrow> FolderTagObj list" where
  "addedTagsOf newTags = new_Set newTags"

text \<open>\<open>this.app.vault.getFiles().filter((file) => file.path.startsWith(folder.path))\<close>,
  as the paths of the files.\<close>

definition filesOfFolder :: "vault \<Rightarrow> string \<Rightarrow> string list" where
  "filesOfFolder v folderPath = map fst (filter (\<lambda>f. startsWith (fst f) folderPath) v)"

text \<open>The callback given to the modal: the new settings and the run over the vault.\<close>

definition onSubmit ::
  "FolderTagsSettings \<Rightarrow> vault \<Rightarrow> cache \<Rightarrow> string \<Rightarrow> FolderTagObj list \<Rightarrow> FolderTagObj list
   \<Rightarrow> FolderTagsSettings \<times> (error + run)" where
  "onSubmit settings v cache folderPath currentTags newTags =
     (let removedTags = removedTagsOf currentTags newTags;
          settings1 = saveFolderTags settings folderPath newTags;
          addedTags = addedTagsOf newTags
      in (settings1,
          fileLoop cache removedTags addedTags (filesOfFolder v folderPath)
            \<lparr>files = v, cache_calls = 0, trace = []\<rparr>))"

text \<open>
  \<open>addTagsToFolder\<close>: the direct tags of the folder are read, the modal is opened with
  the inherited and the direct tags, and \<open>newTags\<close> is what the modal submits.
\<close>

definition currentTagsOf :: "FolderTagsSettings \<Rightarrow> string \<Rightarrow> FolderTagObj list" where
  "currentTagsOf settings folderPath =
     (case findFolderTags settings folderPath of None \<Rightarrow> [] | Some ft \<Rightarrow> tags ft)"

definition modalTags :: "FolderTagsSettings \<Rightarrow> ref \<Rightarrow> string \<Rightarrow> FolderTagObj list" where
  "modalTags settings fresh folderPath =
     new_Set (getInheritedTags settings fresh folderPath @ currentTagsOf settings folderPath)"

definition addTagsToFolder ::
  "FolderTagsSettings \<Rightarrow> vault \<Rightarrow> cache \<Rightarrow> string \<Rightarrow> FolderTagObj list
   \<Rightarrow> FolderTagsSettings \<times> (error + run)" where
  "addTagsToFolder settings v cache folderPath newTags =
     onSubmit settings v cache folderPath (currentTagsOf settings folderPath) newTags"

section \<open>Properties of split and join\<close>

lemma split_not_Nil: "split c s \<noteq> []"
  by (induction s) (auto split: list.splits)

lemma split_no_sep: "c \<notin> set s \<Longrightarrow> split c s = [s]"
  by (induction s) auto

lemma split_append_sep: "c \<notin> set l \<Longrightarrow> split c (l @ c # s) = l # split c s"
  by (induction l) auto

lemma split_join_Cons:
  "c \<notin> set x \<Longrightarrow> list_all (\<lambda>l. c \<notin> set l) ls \<Longrightarrow> split c (join [c] (x # ls)) = x # ls"
proof (induction ls arbitrary: x)
  case Nil
  then show ?case by (simp add: split_no_sep)
next
  case (Cons y ys)
  then show ?case by (simp add: split_append_sep)
qed

lemma split_join:
  "ls \<noteq> [] \<Longrightarrow> list_all (\<lambda>l. c \<notin> set l) ls \<Longrightarrow> split c (join [c] ls) = ls"
  by (cases ls) (simp_all add: split_join_Cons)

lemma split_hd: "split c s = takeWhile (\<lambda>x. x \<noteq> c) s # tl (split c s)"
  by (induction s) (auto split: list.splits simp: split_not_Nil)

section \<open>parseYaml skips malformed lines\<close>

lemma parseLine_skip:
  assumes "CHR '':'' \<notin> set l \<or> trim (takeWhile (\<lambda>x. x \<noteq> CHR '':'') l) = []"
  shows "parseLine r l = r"
proof (cases "CHR '':'' \<in> set l")
  case False
  then show ?thesis by (simp add: parseLine_def split_no_sep)
next
  case True
  with assms have k: "trim (takeWhile (\<lambda>x. x \<noteq> CHR '':'') l) = []" by simp
  obtain rest where "split (CHR '':'') l = takeWhile (\<lambda>x. x \<noteq> CHR '':'') l # rest"
    using split_hd by blast
  with k show ?thesis by (simp add: parseLine_def)
qed

lemma parseYaml_lines:
  "ls \<noteq> [] \<Longrightarrow> list_all (\<lambda>x. CHR 0x0A \<notin> set x) ls \<Longrightarrow>
   parseYaml (join [CHR 0x0A] ls) = foldl parseLine [] ls"
  by (simp add: parseYaml_def split_join)

lemma keys_assign:
  "map fst (assign k v obj) = (if k \<in> set (map fst obj) then map fst obj else map fst obj @ [k])"
  by (induction obj) auto

lemma set_assign: "set (assign k v obj) \<subseteq> insert (k, v) (set obj)"
  by (induction obj) auto

lemma plain_object_assign:
  assumes "plain_object obj" and "own_property (k, v)"
  shows "plain_object (assign k v obj)"
proof -
  have "distinct (map fst (assign k v obj))"
    using assms(1) by (simp add: plain_object_def keys_assign)
  moreover have "own_property p" if "p \<in> set (assign k v obj)" for p
  proof -
    from that set_assign have "p = (k, v) \<or> p \<in> set obj" by fastforce
    with assms show ?thesis by (auto simp: plain_object_def list_all_iff)
  qed
  ultimately show ?thesis by (simp add: plain_object_def list_all_iff)
qed

lemma plain_object_obj_set:
  assumes "plain_object obj" and "k \<noteq> []"
    and "case v of YStr s \<Rightarrow> True
         | YArr xs \<Rightarrow> list_all (\<lambda>v. case v of JStr s \<Rightarrow> True | JObj obj \<Rightarrow> False) xs"
  shows "plain_object (obj_set k v obj)"
proof (cases "k = ''__proto__''")
  case True
  with assms(1) show ?thesis by (simp add: obj_set_def)
next
  case False
  with assms(2,3) have "own_property (k, v)" by (simp add: own_property_def)
  with assms(1) False show ?thesis by (simp add: obj_set_def plain_object_assign)
qed

lemma plain_object_parseLine: "plain_object r \<Longrightarrow> plain_object (parseLine r l)"
  by (auto simp: parseLine_def Let_def list_all_iff intro!: plain_object_obj_set split: list.splits)

lemma plain_object_foldl: "plain_object r \<Longrightarrow> plain_object (foldl parseLine r ls)"
  by (induction ls arbitrary: r) (simp_all add: plain_object_parseLine)

lemma plain_object_parseYaml: "plain_object (parseYaml yaml)"
proof -
  have "plain_object []" by (simp add: plain_object_def)
  then show ?thesis unfolding parseYaml_def by (rule plain_object_foldl)
qed

lemma parseYaml_skip_line:
  assumes nl: "CHR 0x0A \<notin> set l" "list_all (\<lambda>x. CHR 0x0A \<notin> set x) (ls1 @ ls2)"
    and bad: "CHR '':'' \<notin> set l \<or> trim (takeWhile (\<lambda>c. c \<noteq> CHR '':'') l) = []"
  shows "parseYaml (join [CHR 0x0A] (ls1 @ l # ls2)) = parseYaml (join [CHR 0x0A] (ls1 @ ls2))"
proof -
  have all: "list_all (\<lambda>x. CHR 0x0A \<notin> set x) (ls1 @ l # ls2)"
    using nl by simp
  have lhs: "parseYaml (join [CHR 0x0A] (ls1 @ l # ls2)) = foldl parseLine [] (ls1 @ ls2)"
    using parseYaml_lines [OF _ all] parseLine_skip [OF bad] by simp
  show ?thesis
  proof (cases "ls1 @ ls2 = []")
    case True
    have "parseLine [] [] = []"
      by (rule parseLine_skip) simp
    with True lhs show ?thesis
      by (simp add: parseYaml_def)
  next
    case False
    then show ?thesis
      using lhs parseYaml_lines [OF False nl(2)] by simp
  qed
qed

text \<open>
  C10 (as amended). \<open>parseYaml\<close> is total: on every string it has a result, and the
  result is an object (distinct own keys, each non-empty, each value a string or an
  array of strings); nothing in its \<open>try\<close> block throws on strings, so there is no
  error result. A line that lacks the \<open>:\<close> separator, or whose key is empty after
  trimming, is skipped: with such a line \<open>l\<close> between the lines \<open>ls1\<close> and \<open>ls2\<close>, the
  parse is the parse of the text without \<open>l\<close>, so the lines after it are parsed as if
  it were not there.
\<close>

theorem parseYaml_total_skips_malformed_line:
  "(\<exists>obj. parseYaml yaml = obj \<and> plain_object obj)
   \<and> (CHR 0x0A \<notin> set l \<and> list_all (\<lambda>x. CHR 0x0A \<notin> set x) (ls1 @ ls2)
       \<and> (CHR '':'' \<notin> set l \<or> trim (takeWhile (\<lambda>c. c \<noteq> CHR '':'') l) = [])
       \<longrightarrow> parseYaml (join [CHR 0x0A] (ls1 @ l # ls2)) = parseYaml (join [CHR 0x0A] (ls1 @ ls2)))"
proof (intro conjI impI)
  show "\<exists>obj. parseYaml yaml = obj \<and> plain_object obj"
    by (simp add: plain_object_parseYaml)
next
  assume h: "CHR 0x0A \<notin> set l \<and> list_all (\<lambda>x. CHR 0x0A \<notin> set x) (ls1 @ ls2)
       \<and> (CHR '':'' \<notin> set l \<or> trim (takeWhile (\<lambda>c. c \<noteq> CHR '':'') l) = [])"
  then have nl: "CHR 0x0A \<notin> set l" and nls: "list_all (\<lambda>x. CHR 0x0A \<notin> set x) (ls1 @ ls2)"
    and bad: "CHR '':'' \<notin> set l \<or> trim (takeWhile (\<lambda>c. c \<noteq> CHR '':'') l) = []"
    by blast+
  from parseYaml_skip_line [OF nl nls bad]
  show "parseYaml (join [CHR 0x0A] (ls1 @ l # ls2)) = parseYaml (join [CHR 0x0A] (ls1 @ ls2))" .
qed

theorem parseYaml_total_skips_malformed_line_witness:
  "plain_object (parseYaml ''a: 1\<newline>junk\<newline>b: 2'')
   \<and> CHR 0x0A \<notin> set ''junk'' \<and> list_all (\<lambda>x. CHR 0x0A \<notin> set x) ([''a: 1''] @ [''b: 2''])
   \<and> CHR '':'' \<notin> set ''junk''
   \<and> parseYaml (join [CHR 0x0A] ([''a: 1''] @ ''junk'' # [''b: 2'']))
     = parseYaml (join [CHR 0x0A] ([''a: 1''] @ [''b: 2'']))"
proof -
  note t = parseYaml_total_skips_malformed_line
             [of "''a: 1\<newline>junk\<newline>b: 2''" "''junk''" "[''a: 1'']" "[''b: 2'']"]
  have a1: "CHR 0x0A \<notin> set ''junk''" by simp
  have a2: "list_all (\<lambda>x. CHR 0x0A \<notin> set x) ([''a: 1''] @ [''b: 2''])" by simp
  have a3: "CHR '':'' \<notin> set ''junk''" by simp
  from t have p: "plain_object (parseYaml ''a: 1\<newline>junk\<newline>b: 2'')"
    by blast
  from t a1 a2 a3
  have e: "parseYaml (join [CHR 0x0A] ([''a: 1''] @ ''junk'' # [''b: 2'']))
             = parseYaml (join [CHR 0x0A] ([''a: 1''] @ [''b: 2'']))"
    by blast
  from p a1 a2 a3 e show ?thesis
    by blast
qed

text \<open>The line \<open>key:\<close> has an empty value after trimming and is kept: the object has
  the property \<open>key\<close>, the empty string, where the parse of no line has none.\<close>

theorem parseYaml_empty_value_kept:
  "parseYaml ''key:'' = [(''key'', YStr [])] \<and> parseYaml [] = []"
  by code_simp

section \<open>The resolver on a chain of ancestors\<close>

lemma set_new_Set: "set (new_Set xs) = set xs"
  by (induction xs rule: new_Set.induct) auto

lemma snd_mapInherited:
  "snd ` set (mapInherited n ts) = (\<lambda>t. \<lparr>tag = tag (snd t), inherited = True\<rparr>) ` set ts"
  by (induction ts arbitrary: n) auto

lemma inheritedLoop_keeps:
  "\<lparr>tag = x, inherited = True\<rparr> \<in> snd ` set inh \<Longrightarrow>
   \<lparr>tag = x, inherited = True\<rparr> \<in> snd ` set (inheritedLoop st parts cur inh n)"
proof (induction parts arbitrary: cur inh n)
  case Nil
  then show ?case by simp
next
  case (Cons part parts)
  show ?case
  proof (cases "findFolderTags st (nextPath cur part)")
    case None
    then show ?thesis using Cons by simp
  next
    case (Some f)
    from Cons.prems obtain t where t: "t \<in> set inh" "snd t = \<lparr>tag = x, inherited = True\<rparr>"
      by auto
    then have "\<lparr>tag = x, inherited = True\<rparr> \<in> snd ` set (mapInherited n inh)"
      unfolding snd_mapInherited by force
    then have "\<lparr>tag = x, inherited = True\<rparr>
        \<in> snd ` set (mapInherited n inh @ mapInherited (n + length inh) (tags f))"
      by auto
    from Cons.IH [OF this] show ?thesis using Some by simp
  qed
qed

lemma inheritedLoop_reaches:
  assumes "findFolderTags st (foldl nextPath cur (ps @ [q])) = Some f" and "t \<in> set (tags f)"
  shows "\<lparr>tag = tag (snd t), inherited = True\<rparr>
           \<in> snd ` set (inheritedLoop st (ps @ q # qs) cur inh n)"
  using assms
proof (induction ps arbitrary: cur inh n)
  case Nil
  then have f: "findFolderTags st (nextPath cur q) = Some f" by simp
  have "\<lparr>tag = tag (snd t), inherited = True\<rparr> \<in> snd ` set (mapInherited (n + length inh) (tags f))"
    unfolding snd_mapInherited using Nil.prems(2) by blast
  then have "\<lparr>tag = tag (snd t), inherited = True\<rparr>
      \<in> snd ` set (mapInherited n inh @ mapInherited (n + length inh) (tags f))"
    by auto
  from inheritedLoop_keeps [OF this] show ?case using f by simp
next
  case (Cons p ps)
  then show ?case
    by (cases "findFolderTags st (nextPath cur p)") simp_all
qed

lemma join_snoc: "segs \<noteq> [] \<Longrightarrow> join sep (segs @ [s]) = join sep segs @ sep @ s"
  by (induction sep segs rule: join.induct) auto

lemma join_nonempty: "segs \<noteq> [] \<Longrightarrow> list_all (\<lambda>s. s \<noteq> []) segs \<Longrightarrow> join sep segs \<noteq> []"
  by (induction sep segs rule: join.induct) auto

lemma foldl_nextPath:
  "segs \<noteq> [] \<Longrightarrow> list_all (\<lambda>s. s \<noteq> []) segs \<Longrightarrow> foldl nextPath [] segs = join ''/'' segs"
proof (induction segs rule: rev_induct)
  case Nil
  then show ?case by simp
next
  case (snoc s segs)
  show ?case
  proof (cases "segs = []")
    case True
    then show ?thesis by (simp add: nextPath_def)
  next
    case False
    with snoc show ?thesis
      by (simp add: nextPath_def join_snoc join_nonempty)
  qed
qed


lemma getInheritedTags_segments:
  assumes wf: "list_all (\<lambda>s. s \<noteq> [] \<and> CHR ''/'' \<notin> set s) (ps @ q # qs @ [l])"
    and f: "findFolderTags st (join ''/'' (ps @ [q])) = Some f" and t: "t \<in> set (tags f)"
  shows "\<lparr>tag = tag (snd t), inherited = True\<rparr>
           \<in> snd ` set (getInheritedTags st fresh (join ''/'' (ps @ q # qs @ [l])))"
proof -
  have "list_all (\<lambda>s. CHR ''/'' \<notin> set s) (ps @ q # qs @ [l])"
    using wf by (simp add: list_all_iff)
  then have sp: "split (CHR ''/'') (join ''/'' (ps @ q # qs @ [l])) = ps @ q # qs @ [l]"
    by (intro split_join) simp_all
  have bl: "butlast (ps @ q # qs @ [l]) = ps @ q # qs"
    by (simp add: butlast_append)
  have "list_all (\<lambda>s. s \<noteq> []) (ps @ [q])"
    using wf by (simp add: list_all_iff)
  then have "foldl nextPath [] (ps @ [q]) = join ''/'' (ps @ [q])"
    by (intro foldl_nextPath) simp_all
  with f have "findFolderTags st (foldl nextPath [] (ps @ [q])) = Some f"
    by simp
  from inheritedLoop_reaches [OF this t] show ?thesis
    by (simp add: getInheritedTags_def sp bl)
qed

text \<open>
  C4. Let \<open>A\<close>, \<open>B\<close>, \<open>C\<close> be folder paths, each a sequence of non-empty segments joined by
  \<open>/\<close>, with \<open>A\<close> a strict prefix of \<open>B\<close> and \<open>B\<close> of \<open>C\<close> segment by segment, and let each
  have a record in the settings. Then \<open>getFolderTags\<close> at \<open>C\<close> holds every tag of the
  records of \<open>A\<close> and \<open>B\<close> as an entry marked \<open>inherited = true\<close>, and every direct tag
  of \<open>C\<close> (stored, as the settings persist them, with \<open>inherited = false\<close>) as an entry
  marked \<open>inherited = false\<close>.
\<close>

theorem getFolderTags_ancestor_chain:
  assumes ne: "as \<noteq> []" "bs \<noteq> []" "cs \<noteq> []"
    and wf: "list_all (\<lambda>s. s \<noteq> [] \<and> CHR ''/'' \<notin> set s) (as @ bs @ cs)"
    and A: "findFolderTags settings (join ''/'' as) = Some fa"
    and B: "findFolderTags settings (join ''/'' (as @ bs)) = Some fb"
    and C: "findFolderTags settings (join ''/'' (as @ bs @ cs)) = Some fc"
    and direct: "list_all (\<lambda>t. \<not> inherited (snd t)) (tags fc)"
  shows "(\<forall>t \<in> set (tags fa) \<union> set (tags fb).
            \<lparr>tag = tag (snd t), inherited = True\<rparr>
              \<in> snd ` set (getFolderTags settings fresh (join ''/'' (as @ bs @ cs))))
       \<and> (\<forall>t \<in> set (tags fc).
            \<lparr>tag = tag (snd t), inherited = False\<rparr>
              \<in> snd ` set (getFolderTags settings fresh (join ''/'' (as @ bs @ cs))))"
proof -
  let ?C = "join ''/'' (as @ bs @ cs)"
  have res: "set (getFolderTags settings fresh ?C)
               = set (tags fc) \<union> set (getInheritedTags settings fresh ?C)"
    by (simp add: getFolderTags_def C set_new_Set)
  obtain as' a where as: "as = as' @ [a]"
    using ne(1) by (meson rev_exhaust)
  obtain bs' b where bs: "bs = bs' @ [b]"
    using ne(2) by (meson rev_exhaust)
  obtain cs' c where cs: "cs = cs' @ [c]"
    using ne(3) by (meson rev_exhaust)
  have pa: "as @ bs @ cs = as' @ a # (bs @ cs') @ [c]"
    by (simp add: as cs)
  have pb: "as @ bs @ cs = (as @ bs') @ b # cs' @ [c]"
    by (simp add: bs cs)
  have wfa: "list_all (\<lambda>s. s \<noteq> [] \<and> CHR ''/'' \<notin> set s) (as' @ a # (bs @ cs') @ [c])"
    using wf by (simp add: as cs)
  have wfb: "list_all (\<lambda>s. s \<noteq> [] \<and> CHR ''/'' \<notin> set s) ((as @ bs') @ b # cs' @ [c])"
    using wf by (simp add: bs cs)
  have A': "findFolderTags settings (join ''/'' (as' @ [a])) = Some fa"
    using A by (simp add: as)
  have B': "findFolderTags settings (join ''/'' ((as @ bs') @ [b])) = Some fb"
    using B by (simp add: bs)
  have inhA: "\<lparr>tag = tag (snd t), inherited = True\<rparr>
                \<in> snd ` set (getInheritedTags settings fresh ?C)" if "t \<in> set (tags fa)" for t
    using getInheritedTags_segments [OF wfa A' that, of fresh] by (simp only: pa)
  have inhB: "\<lparr>tag = tag (snd t), inherited = True\<rparr>
                \<in> snd ` set (getInheritedTags settings fresh ?C)" if "t \<in> set (tags fb)" for t
    using getInheritedTags_segments [OF wfb B' that, of fresh] by (simp only: pb)
  have dir: "\<lparr>tag = tag (snd t), inherited = False\<rparr> \<in> snd ` set (tags fc)"
    if "t \<in> set (tags fc)" for t
  proof -
    from direct that have "\<not> inherited (snd t)"
      by (simp add: list_all_iff)
    then have "snd t = \<lparr>tag = tag (snd t), inherited = False\<rparr>"
      by simp
    with that show ?thesis
      by (metis imageI)
  qed
  show ?thesis
    unfolding res image_Un using inhA inhB dir by blast
qed

theorem getFolderTags_ancestor_chain_witness:
  "\<lparr>tag = ''x'', inherited = True\<rparr>
     \<in> snd ` set (getFolderTags
         [\<lparr>path = ''a'', tags = [(1, \<lparr>tag = ''x'', inherited = False\<rparr>)]\<rparr>,
          \<lparr>path = ''a/b'', tags = [(2, \<lparr>tag = ''y'', inherited = False\<rparr>)]\<rparr>,
          \<lparr>path = ''a/b/c'', tags = [(3, \<lparr>tag = ''z'', inherited = False\<rparr>)]\<rparr>] 4 ''a/b/c'')
   \<and> \<lparr>tag = ''y'', inherited = True\<rparr>
     \<in> snd ` set (getFolderTags
         [\<lparr>path = ''a'', tags = [(1, \<lparr>tag = ''x'', inherited = False\<rparr>)]\<rparr>,
          \<lparr>path = ''a/b'', tags = [(2, \<lparr>tag = ''y'', inherited = False\<rparr>)]\<rparr>,
          \<lparr>path = ''a/b/c'', tags = [(3, \<lparr>tag = ''z'', inherited = False\<rparr>)]\<rparr>] 4 ''a/b/c'')
   \<and> \<lparr>tag = ''z'', inherited = False\<rparr>
     \<in> snd ` set (getFolderTags
         [\<lparr>path = ''a'', tags = [(1, \<lparr>tag = ''x'', inherited = False\<rparr>)]\<rparr>,
          \<lparr>path = ''a/b'', tags = [(2, \<lparr>tag = ''y'', inherited = False\<rparr>)]\<rparr>,
          \<lparr>path = ''a/b/c'', tags = [(3, \<lparr>tag = ''z'', inherited = False\<rparr>)]\<rparr>] 4 ''a/b/c'')"
proof -
  let ?st = "[\<lparr>path = ''a'', tags = [(1::nat, \<lparr>tag = ''x'', inherited = False\<rparr>)]\<rparr>,
          \<lparr>path = ''a/b'', tags = [(2, \<lparr>tag = ''y'', inherited = False\<rparr>)]\<rparr>,
          \<lparr>path = ''a/b/c'', tags = [(3, \<lparr>tag = ''z'', inherited = False\<rparr>)]\<rparr>]"
  have A: "findFolderTags ?st (join ''/'' [''a'']) = Some \<lparr>path = ''a'', tags = [(1, \<lparr>tag = ''x'', inherited = False\<rparr>)]\<rparr>"
    by (simp add: findFolderTags_def)
  have B: "findFolderTags ?st (join ''/'' ([''a''] @ [''b''])) = Some \<lparr>path = ''a/b'', tags = [(2, \<lparr>tag = ''y'', inherited = False\<rparr>)]\<rparr>"
    by (simp add: findFolderTags_def)
  have C: "findFolderTags ?st (join ''/'' ([''a''] @ [''b''] @ [''c''])) = Some \<lparr>path = ''a/b/c'', tags = [(3, \<lparr>tag = ''z'', inherited = False\<rparr>)]\<rparr>"
    by (simp add: findFolderTags_def)
  have wf: "list_all (\<lambda>s. s \<noteq> [] \<and> CHR ''/'' \<notin> set s) ([''a''] @ [''b''] @ [''c''])"
    by simp
  show ?thesis
    using getFolderTags_ancestor_chain [OF _ _ _ wf A B C, of 4]
    by simp
qed

section \<open>addTagsToFileContent when the block is not found\<close>

text \<open>When the metadata cache reports frontmatter and the text does not match the
  frontmatter pattern, \<open>addTagsToFileContent\<close> returns without a write.\<close>

lemma addTagsToFileContent_unmatched_no_write:
  assumes "hasFrontmatter metadata" and "frontmatterMatch content = None"
  shows "addTagsToFileContent content metadata newTags = None"
  using assms by (simp add: addTagsToFileContent_def Let_def)

text \<open>
  C6, at two inputs where the cache reports frontmatter and the pattern finds no block.
  The claim has the new tags appended as inline hashtags. First, a file with CRLF line
  ends (the pattern asks for \<open>---\<close> and a line feed): nothing is written, and the tag
  \<open>newtag\<close> is added nowhere. Second, the callback of \<open>addTagsToFolder\<close> on a file with a
  well-formed block, the tag \<open>a\<close> replaced by \<open>b\<close>: the removal writes the closing \<open>---\<close>
  on the line of the last field, the addition that follows finds no block, and \<open>b\<close> is
  never written.
\<close>

theorem addTagsToFileContent_unmatched_block_drops_tags:
  "hasFrontmatter (Some \<lparr>frontmatter = True, cache_tags = None\<rparr>)
   \<and> frontmatterMatch (''---'' @ [CHR 0x0D, CHR 0x0A] @ ''tags: [a]'' @ [CHR 0x0D, CHR 0x0A] @ ''---''
                        @ [CHR 0x0D, CHR 0x0A] @ ''Body'') = None
   \<and> addTagsToFileContent (''---'' @ [CHR 0x0D, CHR 0x0A] @ ''tags: [a]'' @ [CHR 0x0D, CHR 0x0A] @ ''---''
                        @ [CHR 0x0D, CHR 0x0A] @ ''Body'')
         (Some \<lparr>frontmatter = True, cache_tags = None\<rparr>)
         [(1, \<lparr>tag = ''newtag'', inherited = False\<rparr>)] = None
   \<and> addTagsToFolder
         [\<lparr>path = ''foo'', tags = [(1, \<lparr>tag = ''a'', inherited = False\<rparr>)]\<rparr>]
         [(''foo/y.md'', ''---\<newline>title: T\<newline>tags: [a]\<newline>---\<newline>Body'')]
         (\<lambda>i p. Some \<lparr>frontmatter = True, cache_tags = None\<rparr>) ''foo''
         [(2, \<lparr>tag = ''b'', inherited = False\<rparr>)]
       = ([\<lparr>path = ''foo'', tags = [(2, \<lparr>tag = ''b'', inherited = False\<rparr>)]\<rparr>],
          Inr \<lparr>files = [(''foo/y.md'', ''---\<newline>title: T---\<newline>Body'')], cache_calls = 2,
               trace = [RemoveCall ''foo/y.md'' [(1, \<lparr>tag = ''a'', inherited = False\<rparr>)],
                        AddCall ''foo/y.md'' [(2, \<lparr>tag = ''b'', inherited = False\<rparr>)]]\<rparr>)"
  by code_simp

section \<open>The sets given to the content functions by addTagsToFolder\<close>

lemma runRemove_trace:
  "runRemove cache p R r = Inr r1 \<Longrightarrow> trace r1 = trace r @ [RemoveCall p R]"
  by (auto simp: runRemove_def Let_def split: if_splits sum.splits)

lemma runAdd_trace: "trace (runAdd cache p A r) = trace r @ [AddCall p A]"
  by (simp add: runAdd_def Let_def)

lemma fileLoop_trace:
  "fileLoop cache R A ps r = Inr r' \<Longrightarrow>
   set (trace r') \<subseteq> set (trace r) \<union> range (\<lambda>p. RemoveCall p R) \<union> range (\<lambda>p. AddCall p A)"
proof (induction ps arbitrary: r)
  case Nil
  then show ?case by auto
next
  case (Cons p ps)
  from Cons.prems obtain r1 where
    r1: "(if R \<noteq> [] then runRemove cache p R r else Inr r) = Inr r1"
    and rest: "fileLoop cache R A ps (if A \<noteq> [] then runAdd cache p A r1 else r1) = Inr r'"
    by (auto split: sum.splits)
  have t1: "set (trace r1) \<subseteq> set (trace r) \<union> range (\<lambda>p. RemoveCall p R)"
    using r1 runRemove_trace [of cache p R r r1] by (auto split: if_splits)
  have t2: "set (trace (if A \<noteq> [] then runAdd cache p A r1 else r1))
              \<subseteq> set (trace r1) \<union> range (\<lambda>p. AddCall p A)"
    by (auto simp: runAdd_trace)
  from Cons.IH [OF rest] t1 t2 show ?case
    by blast
qed

text \<open>
  C9 (as amended). Every call of \<open>removeTagsFromFileContent\<close> made by the callback of
  \<open>addTagsToFolder\<close> is given the prior direct tags for which the submitted list has no
  entry with the same tag name and the same \<open>inherited\<close> flag; when no prior and no
  submitted entry is marked inherited, these are the prior direct tags whose name is
  not in the submitted list. Every call of \<open>addTagsToFileContent\<close> is given the whole
  submitted list.
\<close>

theorem addTagsToFolder_call_sets:
  assumes "addTagsToFolder settings v cache folderPath newTags = (settings1, Inr r)"
  shows "\<forall>c \<in> set (trace r).
           (case c of
              RemoveCall p ts \<Rightarrow>
                set ts = {t \<in> set (currentTagsOf settings folderPath).
                            \<not> (\<exists>u \<in> set newTags. tag (snd u) = tag (snd t)
                                                  \<and> inherited (snd u) = inherited (snd t))}
                \<and> (list_all (\<lambda>t. \<not> inherited (snd t)) (currentTagsOf settings folderPath @ newTags)
                    \<longrightarrow> set ts = {t \<in> set (currentTagsOf settings folderPath).
                                     tag (snd t) \<notin> (\<lambda>u. tag (snd u)) ` set newTags})
            | AddCall p ts \<Rightarrow> set ts = set newTags)"
proof -
  let ?cur = "currentTagsOf settings folderPath"
  let ?R = "removedTagsOf ?cur newTags"
  let ?A = "addedTagsOf newTags"
  from assms have loop: "fileLoop cache ?R ?A (filesOfFolder v folderPath)
                           \<lparr>files = v, cache_calls = 0, trace = []\<rparr> = Inr r"
    by (simp add: addTagsToFolder_def onSubmit_def Let_def)
  have sub: "set (trace r) \<subseteq> range (\<lambda>p. RemoveCall p ?R) \<union> range (\<lambda>p. AddCall p ?A)"
    using fileLoop_trace [OF loop] by simp
  have R: "set ?R = {t \<in> set ?cur. \<not> (\<exists>u \<in> set newTags. tag (snd u) = tag (snd t)
                                                  \<and> inherited (snd u) = inherited (snd t))}"
    by (auto simp: removedTagsOf_def set_new_Set list_ex_iff)
  have Rn: "set ?R = {t \<in> set ?cur. tag (snd t) \<notin> (\<lambda>u. tag (snd u)) ` set newTags}"
    if "list_all (\<lambda>t. \<not> inherited (snd t)) (?cur @ newTags)"
  proof -
    from that have flags: "\<And>t. t \<in> set ?cur \<union> set newTags \<Longrightarrow> \<not> inherited (snd t)"
      by (simp add: list_all_iff)
    show ?thesis
      unfolding R using flags by (fastforce simp: image_iff)
  qed
  have A: "set ?A = set newTags"
    by (simp add: addedTagsOf_def set_new_Set)
  show ?thesis
  proof
    fix c assume "c \<in> set (trace r)"
    with sub consider p where "c = RemoveCall p ?R" | p where "c = AddCall p ?A"
      by blast
    then show "case c of
              RemoveCall p ts \<Rightarrow>
                set ts = {t \<in> set ?cur.
                            \<not> (\<exists>u \<in> set newTags. tag (snd u) = tag (snd t)
                                                  \<and> inherited (snd u) = inherited (snd t))}
                \<and> (list_all (\<lambda>t. \<not> inherited (snd t)) (?cur @ newTags)
                    \<longrightarrow> set ts = {t \<in> set ?cur.
                                     tag (snd t) \<notin> (\<lambda>u. tag (snd u)) ` set newTags})
            | AddCall p ts \<Rightarrow> set ts = set newTags"
    proof cases
      case 1
      then show ?thesis using R Rn by simp
    next
      case 2
      then show ?thesis using A by simp
    qed
  qed
qed

theorem addTagsToFolder_call_sets_witness:
  "addTagsToFolder
      [\<lparr>path = ''foo'', tags = [(1, \<lparr>tag = ''a'', inherited = False\<rparr>)]\<rparr>]
      [(''foo/y.md'', ''Y #a'')] (\<lambda>i p. None) ''foo''
      [(2, \<lparr>tag = ''b'', inherited = False\<rparr>)]
    = ([\<lparr>path = ''foo'', tags = [(2, \<lparr>tag = ''b'', inherited = False\<rparr>)]\<rparr>],
       Inr \<lparr>files = [(''foo/y.md'', ''Y\<newline>\<newline>#b'')], cache_calls = 2,
            trace = [RemoveCall ''foo/y.md'' [(1, \<lparr>tag = ''a'', inherited = False\<rparr>)],
                     AddCall ''foo/y.md'' [(2, \<lparr>tag = ''b'', inherited = False\<rparr>)]]\<rparr>)
   \<and> set [(1::nat, \<lparr>tag = ''a'', inherited = False\<rparr>)]
       = {t \<in> set (currentTagsOf
                     [\<lparr>path = ''foo'', tags = [(1, \<lparr>tag = ''a'', inherited = False\<rparr>)]\<rparr>] ''foo'').
            tag (snd t) \<notin> (\<lambda>u. tag (snd u)) ` set [(2::nat, \<lparr>tag = ''b'', inherited = False\<rparr>)]}"
proof -
  have run: "addTagsToFolder
      [\<lparr>path = ''foo'', tags = [(1, \<lparr>tag = ''a'', inherited = False\<rparr>)]\<rparr>]
      [(''foo/y.md'', ''Y #a'')] (\<lambda>i p. None) ''foo''
      [(2, \<lparr>tag = ''b'', inherited = False\<rparr>)]
    = ([\<lparr>path = ''foo'', tags = [(2, \<lparr>tag = ''b'', inherited = False\<rparr>)]\<rparr>],
       Inr \<lparr>files = [(''foo/y.md'', ''Y\<newline>\<newline>#b'')], cache_calls = 2,
            trace = [RemoveCall ''foo/y.md'' [(1, \<lparr>tag = ''a'', inherited = False\<rparr>)],
                     AddCall ''foo/y.md'' [(2, \<lparr>tag = ''b'', inherited = False\<rparr>)]]\<rparr>)"
    by code_simp
  have cur: "currentTagsOf [\<lparr>path = ''foo'', tags = [(1, \<lparr>tag = ''a'', inherited = False\<rparr>)]\<rparr>] ''foo''
               = [(1, \<lparr>tag = ''a'', inherited = False\<rparr>)]"
    by code_simp
  have flags: "list_all (\<lambda>t. \<not> inherited (snd t))
       (currentTagsOf [\<lparr>path = ''foo'', tags = [(1, \<lparr>tag = ''a'', inherited = False\<rparr>)]\<rparr>] ''foo''
        @ [(2, \<lparr>tag = ''b'', inherited = False\<rparr>)])"
    by code_simp
  let ?r = "\<lparr>files = [(''foo/y.md'', ''Y\<newline>\<newline>#b'')], cache_calls = 2,
            trace = [RemoveCall ''foo/y.md'' [(1, \<lparr>tag = ''a'', inherited = False\<rparr>)],
                     AddCall ''foo/y.md'' [(2, \<lparr>tag = ''b'', inherited = False\<rparr>)]]\<rparr>"
  have mem: "RemoveCall ''foo/y.md'' [(1, \<lparr>tag = ''a'', inherited = False\<rparr>)] \<in> set (trace ?r)"
    by simp
  from addTagsToFolder_call_sets [OF run, rule_format, OF mem, unfolded call.case]
  have "list_all (\<lambda>t. \<not> inherited (snd t))
       (currentTagsOf [\<lparr>path = ''foo'', tags = [(1, \<lparr>tag = ''a'', inherited = False\<rparr>)]\<rparr>] ''foo''
        @ [(2, \<lparr>tag = ''b'', inherited = False\<rparr>)])
     \<longrightarrow> set [(1::nat, \<lparr>tag = ''a'', inherited = False\<rparr>)]
       = {t \<in> set (currentTagsOf
                     [\<lparr>path = ''foo'', tags = [(1, \<lparr>tag = ''a'', inherited = False\<rparr>)]\<rparr>] ''foo'').
            tag (snd t) \<notin> (\<lambda>u. tag (snd u)) ` set [(2::nat, \<lparr>tag = ''b'', inherited = False\<rparr>)]}"
    by (rule conjunct2)
  with flags
  have "set [(1::nat, \<lparr>tag = ''a'', inherited = False\<rparr>)]
       = {t \<in> set (currentTagsOf
                     [\<lparr>path = ''foo'', tags = [(1, \<lparr>tag = ''a'', inherited = False\<rparr>)]\<rparr>] ''foo'').
            tag (snd t) \<notin> (\<lambda>u. tag (snd u)) ` set [(2::nat, \<lparr>tag = ''b'', inherited = False\<rparr>)]}"
    by (rule rev_mp)
  with run show ?thesis
    by (rule conjI)
qed

text \<open>The folder \<open>foo\<close> has the direct tag \<open>a\<close>, and the modal submits \<open>a\<close> and \<open>b\<close>:
  \<open>addTagsToFileContent\<close> is given both, not the one tag that is new.\<close>

theorem addTagsToFolder_added_set_counterexample:
  "addTagsToFolder
      [\<lparr>path = ''foo'', tags = [(1, \<lparr>tag = ''a'', inherited = False\<rparr>)]\<rparr>]
      [(''foo/y.md'', ''Y #a'')]
      (\<lambda>i p. Some \<lparr>frontmatter = False, cache_tags = Some [''#a'']\<rparr>) ''foo''
      [(1, \<lparr>tag = ''a'', inherited = False\<rparr>), (2, \<lparr>tag = ''b'', inherited = False\<rparr>)]
    = ([\<lparr>path = ''foo'', tags = [(1, \<lparr>tag = ''a'', inherited = False\<rparr>),
                                (2, \<lparr>tag = ''b'', inherited = False\<rparr>)]\<rparr>],
       Inr \<lparr>files = [(''foo/y.md'', ''Y #a\<newline>\<newline>#b'')], cache_calls = 1,
            trace = [AddCall ''foo/y.md'' [(1, \<lparr>tag = ''a'', inherited = False\<rparr>),
                                         (2, \<lparr>tag = ''b'', inherited = False\<rparr>)]]\<rparr>)
   \<and> [(1::nat, \<lparr>tag = ''a'', inherited = False\<rparr>), (2, \<lparr>tag = ''b'', inherited = False\<rparr>)]
       \<noteq> filter (\<lambda>t. tag (snd t) \<notin> (\<lambda>u. tag (snd u)) ` set (currentTagsOf
                     [\<lparr>path = ''foo'', tags = [(1, \<lparr>tag = ''a'', inherited = False\<rparr>)]\<rparr>] ''foo''))
            [(1::nat, \<lparr>tag = ''a'', inherited = False\<rparr>), (2, \<lparr>tag = ''b'', inherited = False\<rparr>)]"
  by code_simp

section \<open>The code at the inputs where it departs from the specification\<close>

text \<open>
  C1, at the frontmatter \<open>tags: [a, b]\<close> with the one new tag \<open>c\<close>. The claim has the
  field rewritten to \<open>tags: [a, b, c]\<close>. The code spreads the \<open>FolderTag\<close> object itself
  into the array, so the field reads \<open>tags: [a, b, [object Object]]\<close>, and it writes the
  closing \<open>---\<close> on the same line. The block is then no longer found by the frontmatter
  pattern: the removal of \<open>a\<close> that follows writes nothing, and \<open>a\<close> stays.
\<close>

theorem roundtrip_add_writes_object_text:
  "addTagsToFileContent ''---\<newline>tags: [a, b]\<newline>---\<newline>Body''
       (Some \<lparr>frontmatter = True, cache_tags = Some []\<rparr>)
       [(1, \<lparr>tag = ''c'', inherited = False\<rparr>)]
     = Some ''---\<newline>tags: [a, b, [object Object]]---\<newline>Body''
   \<and> removeTagsFromFileContent ''---\<newline>tags: [a, b, [object Object]]---\<newline>Body''
       (Some \<lparr>frontmatter = True, cache_tags = Some []\<rparr>)
       [(2, \<lparr>tag = ''a'', inherited = False\<rparr>)]
     = Inr None"
  by code_simp

text \<open>
  C2, with the tag \<open>x\<close> declared on the folder \<open>a/b\<close> and on its parent \<open>a\<close>. The claim
  has one entry for \<open>x\<close>, marked \<open>inherited = false\<close>. The \<open>Set\<close> of the code compares
  objects by reference, so the result for \<open>a/b\<close> holds two entries named \<open>x\<close>, one direct
  and one inherited; and the result for \<open>a/b/c\<close> holds two inherited entries named \<open>x\<close>,
  two objects with the same fields.
\<close>

theorem getFolderTags_duplicate_name:
  "getFolderTags
      [\<lparr>path = ''a'', tags = [(1, \<lparr>tag = ''x'', inherited = False\<rparr>)]\<rparr>,
       \<lparr>path = ''a/b'', tags = [(2, \<lparr>tag = ''x'', inherited = False\<rparr>)]\<rparr>]
      3 ''a/b''
   = [(2, \<lparr>tag = ''x'', inherited = False\<rparr>), (3, \<lparr>tag = ''x'', inherited = True\<rparr>)]
   \<and> getFolderTags
      [\<lparr>path = ''a'', tags = [(1, \<lparr>tag = ''x'', inherited = False\<rparr>)]\<rparr>,
       \<lparr>path = ''a/b'', tags = [(2, \<lparr>tag = ''x'', inherited = False\<rparr>)]\<rparr>]
      3 ''a/b/c''
   = [(4, \<lparr>tag = ''x'', inherited = True\<rparr>), (5, \<lparr>tag = ''x'', inherited = True\<rparr>)]"
  by code_simp

text \<open>
  C3, the text \<open>Content #tag1 #tag2\<close> and the removal of \<open>tag1\<close>, whatever the cache
  answers. The result still has \<open>#tag2\<close> and has no \<open>#tag1\<close>, as the claim says, but the
  match takes only the white space before the tag, and the space that replaces it
  stands next to the space after the tag: the result has two spaces in a row.
\<close>

theorem removeTags_leaves_double_space:
  "removeTagsFromFileContent ''Content #tag1 #tag2'' None
       [(1, \<lparr>tag = ''tag1'', inherited = False\<rparr>)]
     = Inr (Some ''Content  #tag2'')
   \<and> removeTagsFromFileContent ''Content #tag1 #tag2''
       (Some \<lparr>frontmatter = False, cache_tags = Some [''#tag1'', ''#tag2'']\<rparr>)
       [(1, \<lparr>tag = ''tag1'', inherited = False\<rparr>)]
     = Inr (Some ''Content  #tag2'')"
  by code_simp

text \<open>The part of the idempotence that holds: once the cache lists every tag of the
  set as a tag of the file, a call writes nothing.\<close>

lemma addTagsToFileContent_inline_second_call:
  assumes "list_all (\<lambda>t. CHR ''#'' # tag (snd t) \<in> set ts) newTags"
  shows "addTagsToFileContent content (Some \<lparr>frontmatter = fm, cache_tags = Some ts\<rparr>) newTags = None"
proof -
  have "tag (snd t) \<in> set (map (drop 1) ts)" if "t \<in> set newTags" for t
  proof -
    from assms that have "CHR ''#'' # tag (snd t) \<in> set ts"
      by (simp add: list_all_iff)
    then have "drop 1 (CHR ''#'' # tag (snd t)) \<in> drop 1 ` set ts"
      by (rule imageI)
    then show ?thesis by simp
  qed
  then have "filter (\<lambda>t. tag (snd t) \<notin> set (map (drop 1) ts)) newTags = []"
    by (simp add: filter_empty_conv)
  then show ?thesis
    by (simp add: addTagsToFileContent_def existingTags_def)
qed

text \<open>
  C5, a file with frontmatter and the tag \<open>x\<close> added twice. The first call writes the
  block with \<open>[object Object]\<close> in the field. Neither \<open>x\<close> nor any \<open>#\<close> stands in the
  text written, so a cache that reflects it reports no tag \<open>x\<close>; whether it reports
  frontmatter or not, the second call writes again, and the text it writes differs
  from the text after the first call.
\<close>

theorem addTags_second_call_writes:
  "addTagsToFileContent ''---\<newline>tags: [a]\<newline>---\<newline>Body\<newline>---\<newline>More''
       (Some \<lparr>frontmatter = True, cache_tags = Some []\<rparr>)
       [(1, \<lparr>tag = ''x'', inherited = False\<rparr>)]
     = Some ''---\<newline>tags: [a, [object Object]]---\<newline>Body\<newline>---\<newline>More''
   \<and> addTagsToFileContent ''---\<newline>tags: [a, [object Object]]---\<newline>Body\<newline>---\<newline>More''
       (Some \<lparr>frontmatter = True, cache_tags = Some []\<rparr>)
       [(1, \<lparr>tag = ''x'', inherited = False\<rparr>)]
     = Some ''---\<newline>tags: [[a, [object Object]]---, [object Object]]---\<newline>More''
   \<and> addTagsToFileContent ''---\<newline>tags: [a, [object Object]]---\<newline>Body\<newline>---\<newline>More''
       (Some \<lparr>frontmatter = False, cache_tags = Some []\<rparr>)
       [(1, \<lparr>tag = ''x'', inherited = False\<rparr>)]
     = Some ''---\<newline>tags: [a, [object Object]]---\<newline>Body\<newline>---\<newline>More\<newline>\<newline>#x''"
  by code_simp

text \<open>The part of the frame that holds: a write into frontmatter ends with the text
  that followed the block.\<close>

lemma addTagsToFileContent_text_after_block:
  assumes "hasFrontmatter metadata"
    and "addTagsToFileContent content metadata newTags = Some new"
  shows "\<exists>m block. frontmatterMatch content = Some m \<and> new = block @ snd m"
proof (cases "frontmatterMatch content")
  case None
  with assms show ?thesis
    by (simp add: addTagsToFileContent_def Let_def split: if_splits)
next
  case (Some m)
  with assms show ?thesis
    by (auto simp: addTagsToFileContent_def replaceFrontmatter_def Let_def split: if_splits)
qed

text \<open>
  C7, a file with a well-formed block of the one field \<open>title: T\<close> and the tag \<open>x\<close> added. The
  text after the block is unchanged, but the block does not stay delimited: the
  replacement has no line feed before the closing \<open>---\<close>, which ends up on the line of
  the last field, and the frontmatter pattern does not match the text written.
\<close>

theorem addTags_closing_delimiter_glued:
  "addTagsToFileContent ''---\<newline>title: T\<newline>---\<newline>Body''
       (Some \<lparr>frontmatter = True, cache_tags = None\<rparr>)
       [(1, \<lparr>tag = ''x'', inherited = False\<rparr>)]
     = Some ''---\<newline>title: T\<newline>tags: [[object Object]]---\<newline>Body''
   \<and> frontmatterMatch ''---\<newline>title: T\<newline>tags: [[object Object]]---\<newline>Body'' = None"
  by code_simp

text \<open>
  C8, the folder \<open>foo\<close> and the file \<open>foobar/x.md\<close> of a sibling folder. The files are
  chosen by \<open>file.path.startsWith(folder.path)\<close>, so the file is among those of \<open>foo\<close>,
  and the tag submitted for \<open>foo\<close> is written into it.
\<close>

theorem addTagsToFolder_touches_prefix_sibling:
  "filesOfFolder [(''foobar/x.md'', ''Body''), (''foo/y.md'', ''Y'')] ''foo''
     = [''foobar/x.md'', ''foo/y.md'']
   \<and> addTagsToFolder [] [(''foobar/x.md'', ''Body'')] (\<lambda>i p. None) ''foo''
       [(1, \<lparr>tag = ''t'', inherited = False\<rparr>)]
     = ([\<lparr>path = ''foo'', tags = [(1, \<lparr>tag = ''t'', inherited = False\<rparr>)]\<rparr>],
        Inr \<lparr>files = [(''foobar/x.md'', ''Body\<newline>\<newline>#t'')], cache_calls = 1,
             trace = [AddCall ''foobar/x.md'' [(1, \<lparr>tag = ''t'', inherited = False\<rparr>)]]\<rparr>)"
  by code_simp

end
